theory Spec2Isabelle
  imports Complex_Main
begin

section \<open>Numbers and indexing as the TypeScript source has them\<close>

text \<open>
  A JavaScript number is a finite double, \<open>NaN\<close> or one of the two infinities. Finite
  doubles are modelled by real numbers: rounding and overflow of IEEE arithmetic are
  outside this development. Labels that reach the tree builder have passed
  \<open>Number.isFinite\<close> in the feature builder and are therefore plain reals.
\<close>

datatype jsnum = Fin real | NaN | PosInf | NegInf

fun isFinite :: "jsnum \<Rightarrow> bool" where
  "isFinite (Fin r) = True"
| "isFinite v = False"

text \<open>
  \<open>row[f]\<close>: reading an array beyond its end gives \<open>undefined\<close>, here \<open>None\<close>.
\<close>

definition at_idx :: "jsnum list \<Rightarrow> nat \<Rightarrow> jsnum option" where
  "at_idx row f = (if f < length row then Some (row ! f) else None)"

text \<open>
  \<open>Number.isFinite(v)\<close> kept as the finite value itself; \<open>undefined\<close> is not finite.
\<close>

fun finite_of :: "jsnum option \<Rightarrow> real option" where
  "finite_of (Some (Fin r)) = Some r"
| "finite_of v = None"

text \<open>
  \<open>v <= thr\<close> for a finite threshold: false for \<open>NaN\<close>, for \<open>undefined\<close> (which
  converts to \<open>NaN\<close>) and for plus infinity. \<open>gt_thr\<close> is \<open>v > thr\<close>.
\<close>

fun le_thr :: "jsnum option \<Rightarrow> real \<Rightarrow> bool" where
  "le_thr (Some (Fin a)) t = (a \<le> t)"
| "le_thr (Some NegInf) t = True"
| "le_thr v t = False"

fun gt_thr :: "jsnum option \<Rightarrow> real \<Rightarrow> bool" where
  "gt_thr (Some (Fin a)) t = (a > t)"
| "gt_thr (Some PosInf) t = True"
| "gt_thr v t = False"

section \<open>The CART engine (\<open>variance\<close>, \<open>buildCART\<close>, \<open>predictTree\<close>, \<open>fitCART\<close>)\<close>

text \<open>\<open>arr.reduce((a, b) => a + b, 0)\<close>.\<close>

definition sum_reduce :: "real list \<Rightarrow> real" where
  "sum_reduce arr = foldl (\<lambda>a b. a + b) 0 arr"

definition variance :: "real list \<Rightarrow> real" where
  "variance arr =
     (if length arr = 0 then 0
      else let m = sum_reduce arr / real (length arr)
           in foldl (\<lambda>s v. s + (v - m) * (v - m)) 0 arr / real (length arr))"

datatype CartNode =
    Leaf (leaf_val: real) (leaf_size: nat) (leaf_depth: nat)
  | Split (feature: nat) (threshold: real) (left: CartNode) (right: CartNode)
          (split_size: nat) (split_depth: nat)

datatype error = TypeError

text \<open>\<open>X[0]?.length ?? 0\<close>.\<close>

definition nFeat_of :: "jsnum list list \<Rightarrow> nat" where
  "nFeat_of X = (case X of [] \<Rightarrow> 0 | row # rest \<Rightarrow> length row)"

text \<open>\<open>X.map((row) => row[f]).filter((v) => Number.isFinite(v))\<close>.\<close>

definition finite_vals :: "jsnum list list \<Rightarrow> nat \<Rightarrow> real list" where
  "finite_vals X f = List.map_filter (\<lambda>row. finite_of (at_idx row f)) X"

text \<open>
  The loop \<open>for (q = 1; q < 10; q++)\<close> over the sorted values: the index
  \<open>Math.floor(q * sorted.length / 10)\<close> is never negative, so only the upper bound
  of the source's range test is left.
\<close>

definition quantile_candidates :: "real list \<Rightarrow> real list" where
  "quantile_candidates srt =
     concat (map (\<lambda>q. let idx = (q * length srt) div 10
                       in if idx < length srt then [srt ! idx] else [])
                 [1..<10])"

record parts =
  L :: "real list"
  R :: "real list"
  Li :: "nat list"
  Ri :: "nat list"

text \<open>
  The inner loop \<open>for (i = 0; i < n; i++)\<close> with \<open>n = y.length\<close>. Reading
  \<open>X[i][f]\<close> when \<open>X\<close> has no row \<open>i\<close> dereferences \<open>undefined\<close> and throws a
  TypeError; \<open>y[i]\<close> is always in range.
\<close>

fun split_loop ::
  "jsnum list list \<Rightarrow> real list \<Rightarrow> nat \<Rightarrow> real \<Rightarrow> nat list \<Rightarrow> parts \<Rightarrow> error + parts" where
  "split_loop X y f thr [] p = Inr p"
| "split_loop X y f thr (i # rest) p =
     (if i < length X then
        split_loop X y f thr rest
          (if le_thr (at_idx (X ! i) f) thr
           then p\<lparr>L := L p @ [y ! i], Li := Li p @ [i]\<rparr>
           else p\<lparr>R := R p @ [y ! i], Ri := Ri p @ [i]\<rparr>)
      else Inl TypeError)"

definition split_rows :: "jsnum list list \<Rightarrow> real list \<Rightarrow> nat \<Rightarrow> real \<Rightarrow> error + parts" where
  "split_rows X y f thr =
     split_loop X y f thr [0..<length y] \<lparr>L = [], R = [], Li = [], Ri = []\<rparr>"

record best =
  bestGain :: real
  bestFeat :: int
  bestThr :: real
  bestLeftIdx :: "nat list"
  bestRightIdx :: "nat list"

definition init_best :: best where
  "init_best = \<lparr>bestGain = 0, bestFeat = - 1, bestThr = 0, bestLeftIdx = [], bestRightIdx = []\<rparr>"

definition gain_of :: "real \<Rightarrow> nat \<Rightarrow> parts \<Rightarrow> real" where
  "gain_of parentVar n p =
     parentVar - (real (length (L p)) / real n) * variance (L p)
               - (real (length (R p)) / real n) * variance (R p)"

text \<open>The loop \<open>for (const thr of candidates)\<close> of one feature \<open>f\<close>.\<close>

fun try_thresholds ::
  "jsnum list list \<Rightarrow> real list \<Rightarrow> nat \<Rightarrow> real \<Rightarrow> nat \<Rightarrow> real list \<Rightarrow> best \<Rightarrow> error + best" where
  "try_thresholds X y minLeaf parentVar f [] b = Inr b"
| "try_thresholds X y minLeaf parentVar f (thr # rest) b =
     (case split_rows X y f thr of
        Inl e \<Rightarrow> Inl e
      | Inr p \<Rightarrow>
          if length (L p) < minLeaf \<or> length (R p) < minLeaf
          then try_thresholds X y minLeaf parentVar f rest b
          else let gain = gain_of parentVar (length y) p
               in try_thresholds X y minLeaf parentVar f rest
                    (if gain > bestGain b
                     then \<lparr>bestGain = gain, bestFeat = int f, bestThr = thr,
                           bestLeftIdx = Li p, bestRightIdx = Ri p\<rparr>
                     else b))"

text \<open>The loop \<open>for (f = 0; f < nFeat; f++)\<close>.\<close>

fun try_features ::
  "jsnum list list \<Rightarrow> real list \<Rightarrow> nat \<Rightarrow> real \<Rightarrow> nat list \<Rightarrow> best \<Rightarrow> error + best" where
  "try_features X y minLeaf parentVar [] b = Inr b"
| "try_features X y minLeaf parentVar (f # rest) b =
     (let vals = finite_vals X f
      in if vals = [] then try_features X y minLeaf parentVar rest b
         else case try_thresholds X y minLeaf parentVar f (quantile_candidates (sort vals)) b of
                Inl e \<Rightarrow> Inl e
              | Inr b' \<Rightarrow> try_features X y minLeaf parentVar rest b')"

definition split_search :: "jsnum list list \<Rightarrow> real list \<Rightarrow> nat \<Rightarrow> error + best" where
  "split_search X y minLeaf =
     try_features X y minLeaf (variance y) [0..<nFeat_of X] init_best"

text \<open>\<open>y.reduce((a, b) => a + b, 0) / Math.max(1, n)\<close>.\<close>

definition leaf_mean :: "real list \<Rightarrow> real" where
  "leaf_mean y = sum_reduce y / real (max 1 (length y))"

text \<open>
  \<open>idx.map((i) => X[i])\<close>. The index lists come out of \<open>split_rows\<close>, which has read
  every \<open>X[i]\<close> it recorded, so each index is in range (lemma \<open>split_rows_idx_range\<close>).
\<close>

definition rows_at :: "'a list \<Rightarrow> nat list \<Rightarrow> 'a list" where
  "rows_at xs idx = map (\<lambda>i. xs ! i) idx"

function buildCART ::
  "jsnum list list \<Rightarrow> real list \<Rightarrow> nat \<Rightarrow> nat \<Rightarrow> nat \<Rightarrow> error + CartNode" where
  "buildCART X y depth maxDepth minLeaf =
     (if length y \<le> minLeaf \<or> depth \<ge> maxDepth
      then Inr (Leaf (leaf_mean y) (length y) depth)
      else case split_search X y minLeaf of
             Inl e \<Rightarrow> Inl e
           | Inr b \<Rightarrow>
               if bestGain b \<le> 1 / 10 ^ 12 \<or> bestFeat b < 0
               then Inr (Leaf (leaf_mean y) (length y) depth)
               else case buildCART (rows_at X (bestLeftIdx b)) (rows_at y (bestLeftIdx b))
                                   (depth + 1) maxDepth minLeaf of
                      Inl e \<Rightarrow> Inl e
                    | Inr l \<Rightarrow>
                        (case buildCART (rows_at X (bestRightIdx b)) (rows_at y (bestRightIdx b))
                                        (depth + 1) maxDepth minLeaf of
                           Inl e \<Rightarrow> Inl e
                         | Inr r \<Rightarrow>
                             Inr (Split (nat (bestFeat b)) (bestThr b) l r (length y) depth)))"
  by pat_completeness auto
termination
  by (relation "measure (\<lambda>(X, y, depth, maxDepth, minLeaf). maxDepth - depth)") auto

declare buildCART.simps [simp del]

fun predictTree :: "CartNode \<Rightarrow> jsnum list \<Rightarrow> real" where
  "predictTree (Leaf v s d) x = v"
| "predictTree (Split f thr l r s d) x =
     (if le_thr (at_idx x f) thr then predictTree l x else predictTree r x)"

record Model =
  nFeatures :: nat
  root :: CartNode

definition predictBatch :: "Model \<Rightarrow> jsnum list list \<Rightarrow> real list" where
  "predictBatch m XX = map (\<lambda>r. predictTree (root m) r) XX"

text \<open>\<open>fitCART\<close> calls \<open>buildCART(X, y)\<close> with the defaults depth 0, maxDepth 4, minLeaf 8.\<close>

definition fitCART :: "jsnum list list \<Rightarrow> real list \<Rightarrow> error + Model" where
  "fitCART X y =
     (case buildCART X y 0 4 8 of
        Inl e \<Rightarrow> Inl e
      | Inr t \<Rightarrow> Inr \<lparr>nFeatures = nFeat_of X, root = t\<rparr>)"

section \<open>The feature builder (\<open>Xy\<close>) and the training action (\<open>train\<close>)\<close>

text \<open>
  A \<open>Date\<close> object: its time value in milliseconds (\<open>None\<close> for an invalid date, where
  \<open>+d\<close> is \<open>NaN\<close>) and what \<open>getDay()\<close> and \<open>getMonth()\<close> return for it; the calendar
  computation behind these two is the platform's and is taken as given.
\<close>

datatype jsdate = JSDate (getTime: "int option") (getDay: nat) (getMonth: nat)

text \<open>\<open>Row = { [key: string]: number | string | Date | null }\<close>; a missing key reads \<open>undefined\<close>.\<close>

datatype cell = CNum jsnum | CDate jsdate | CStr string | CNull

type_synonym Row = "string \<rightharpoonup> cell"

record DataFrame =
  columns :: "string list"
  rows :: "Row list"
  numericCols :: "string list"
  datetimeKey :: "string option"

definition LAGS :: "int list" where
  "LAGS = [1, 2, 3]"

definition USE_DATETIME_FEATURES :: bool where
  "USE_DATETIME_FEATURES = True"

definition sincos :: "real \<Rightarrow> real \<Rightarrow> real \<times> real" where
  "sincos v period = (let angle = (2 * pi * v) / period in (sin angle, cos angle))"

definition getDateParts :: "jsdate \<Rightarrow> nat \<times> nat" where
  "getDateParts d = (getDay d, getMonth d)"

text \<open>\<open>df.rows[rowIdx]?.[col]\<close>: \<open>undefined\<close> (here \<open>None\<close>) outside the array.\<close>

definition row_cell :: "DataFrame \<Rightarrow> int \<Rightarrow> string \<Rightarrow> cell option" where
  "row_cell df rowIdx col =
     (if 0 \<le> rowIdx \<and> rowIdx < int (length (rows df)) then (rows df ! nat rowIdx) col else None)"

definition getNum :: "DataFrame \<Rightarrow> int \<Rightarrow> string \<Rightarrow> jsnum" where
  "getNum df rowIdx col = (case row_cell df rowIdx col of Some (CNum v) \<Rightarrow> v | _ \<Rightarrow> NaN)"

text \<open>A string or \<open>undefined\<close> in a condition: the empty string and \<open>undefined\<close> are falsy.\<close>

fun truthy :: "string option \<Rightarrow> bool" where
  "truthy None = False"
| "truthy (Some s) = (s \<noteq> [])"

definition exo_of :: "DataFrame \<Rightarrow> string \<Rightarrow> string list" where
  "exo_of df target = filter (\<lambda>c. c \<noteq> target) (numericCols df)"

definition datetime_features :: "DataFrame \<Rightarrow> int \<Rightarrow> jsnum list" where
  "datetime_features df t =
     (case datetimeKey df of
        None \<Rightarrow> []
      | Some k \<Rightarrow>
          if USE_DATETIME_FEATURES \<and> truthy (Some k) then
            (case row_cell df t k of
               Some (CDate dv) \<Rightarrow>
                 (case getTime dv of
                    Some ms \<Rightarrow>
                      (let (weekday, month) = getDateParts dv;
                           d = sincos (real weekday) 7;
                           m = sincos (real month) 12
                       in [Fin (fst d), Fin (snd d), Fin (fst m), Fin (snd m)])
                  | None \<Rightarrow> [Fin 0, Fin 0, Fin 0, Fin 0])
             | _ \<Rightarrow> [Fin 0, Fin 0, Fin 0, Fin 0])
          else [])"

definition makeXAt :: "DataFrame \<Rightarrow> string \<Rightarrow> int \<Rightarrow> jsnum list" where
  "makeXAt df target t =
     map (\<lambda>s. getNum df t s) (exo_of df target)
     @ concat (map (\<lambda>l. getNum df (t - l) target # map (\<lambda>s. getNum df (t - l) s) (exo_of df target))
                   LAGS)
     @ datetime_features df t"

text \<open>\<open>Math.max(0, ...LAGS)\<close>.\<close>

definition maxLag_of :: "int list \<Rightarrow> int" where
  "maxLag_of lags = foldl max 0 lags"

record XyResult =
  Xy_X :: "jsnum list list"
  Xy_y :: "real list"
  Xy_maxLag :: int

text \<open>
  One turn of the loop \<open>for (t = maxLag; t <= N - 2; t++)\<close>: the two \<open>continue\<close>s and the
  two \<open>push\<close>es. A label is pushed only when \<open>Number.isFinite\<close> holds for it.
\<close>

definition Xy_step :: "DataFrame \<Rightarrow> string \<Rightarrow> XyResult \<Rightarrow> int \<Rightarrow> XyResult" where
  "Xy_step df target acc t =
     (let x = makeXAt df target t
      in if list_ex (\<lambda>v. \<not> isFinite v) x then acc
         else case getNum df (t + 1) target of
                Fin yNext \<Rightarrow> acc\<lparr>Xy_X := Xy_X acc @ [x], Xy_y := Xy_y acc @ [yNext]\<rparr>
              | _ \<Rightarrow> acc)"

definition Xy :: "DataFrame option \<Rightarrow> string option \<Rightarrow> XyResult" where
  "Xy dfo targeto =
     (case dfo of
        None \<Rightarrow> \<lparr>Xy_X = [], Xy_y = [], Xy_maxLag = 0\<rparr>
      | Some df \<Rightarrow>
          (case targeto of
             None \<Rightarrow> \<lparr>Xy_X = [], Xy_y = [], Xy_maxLag = 0\<rparr>
           | Some target \<Rightarrow>
               if \<not> truthy (Some target) then \<lparr>Xy_X = [], Xy_y = [], Xy_maxLag = 0\<rparr>
               else foldl (Xy_step df target)
                      \<lparr>Xy_X = [], Xy_y = [], Xy_maxLag = maxLag_of LAGS\<rparr>
                      [maxLag_of LAGS .. int (length (rows df)) - 2]))"

text \<open>\<open>makeNextX\<close>: the same layout at the last row, \<open>t = N - 1\<close>.\<close>

definition makeNextX :: "DataFrame \<Rightarrow> string \<Rightarrow> jsnum list" where
  "makeNextX df target = makeXAt df target (int (length (rows df)) - 1)"

datatype status_msg =
    Status_Empty
  | Status_LoadFirst
  | Status_NotEnough
  | Status_Trained nat nat

record app_state =
  st_df :: "DataFrame option"
  st_target :: "string option"
  st_model :: "Model option"
  st_prediction :: "real option"
  st_status :: status_msg

text \<open>
  \<open>train\<close>: the two early returns only set the status line. An exception out of
  \<open>fitCART\<close> leaves the callback before any setter runs.
\<close>

definition train :: "app_state \<Rightarrow> error + app_state" where
  "train s =
     (if st_df s = None \<or> \<not> truthy (st_target s)
      then Inr (s\<lparr>st_status := Status_LoadFirst\<rparr>)
      else let r = Xy (st_df s) (st_target s)
           in if length (Xy_X r) < 20
              then Inr (s\<lparr>st_status := Status_NotEnough\<rparr>)
              else case fitCART (Xy_X r) (Xy_y r) of
                     Inl e \<Rightarrow> Inl e
                   | Inr m \<Rightarrow>
                       Inr (s\<lparr>st_model := Some m, st_prediction := None,
                               st_status := Status_Trained (nFeatures m) (length (Xy_X r))\<rparr>))"

text \<open>
  \<open>pi\<close> has no executable equation, so the cyclic terms stay symbolic when a concrete
  table is evaluated; they are finite numbers whatever their value.
\<close>

declare sincos_def [code del]

section \<open>Notions used to state the properties\<close>

subsection \<open>Routing of a row at a split\<close>

text \<open>
  \<open>row_le x f thr\<close> is the test \<open>x[f] <= thr\<close> that both the trainer's inner loop and
  \<open>predictTree\<close> evaluate; \<open>row_gt\<close> is \<open>x[f] > thr\<close>. The two are complementary on finite
  values only.
\<close>

definition row_le :: "jsnum list \<Rightarrow> nat \<Rightarrow> real \<Rightarrow> bool" where
  "row_le x f thr = le_thr (at_idx x f) thr"

definition row_gt :: "jsnum list \<Rightarrow> nat \<Rightarrow> real \<Rightarrow> bool" where
  "row_gt x f thr = gt_thr (at_idx x f) thr"

text \<open>A training set as a list of examples (feature vector, label), and its parts at a split.\<close>

definition left_examples ::
  "(jsnum list \<times> real) list \<Rightarrow> nat \<Rightarrow> real \<Rightarrow> (jsnum list \<times> real) list" where
  "left_examples ex f thr = filter (\<lambda>e. row_le (fst e) f thr) ex"

definition right_examples ::
  "(jsnum list \<times> real) list \<Rightarrow> nat \<Rightarrow> real \<Rightarrow> (jsnum list \<times> real) list" where
  "right_examples ex f thr = filter (\<lambda>e. \<not> row_le (fst e) f thr) ex"

definition gt_examples ::
  "(jsnum list \<times> real) list \<Rightarrow> nat \<Rightarrow> real \<Rightarrow> (jsnum list \<times> real) list" where
  "gt_examples ex f thr = filter (\<lambda>e. row_gt (fst e) f thr) ex"

text \<open>
  A feature matrix as the feature builder delivers it: every row has the same width and
  every slot is a finite number.
\<close>

definition finite_matrix :: "nat \<Rightarrow> jsnum list list \<Rightarrow> bool" where
  "finite_matrix w X = list_all (\<lambda>row. length row = w \<and> list_all isFinite row) X"

subsection \<open>The split search as a scan over the candidates\<close>

text \<open>
  The index lists the inner loop builds for feature \<open>f\<close> and threshold \<open>thr\<close>, written as
  filters, and the \<open>parts\<close> value made of them.
\<close>

definition goes_left :: "jsnum list list \<Rightarrow> nat \<Rightarrow> real \<Rightarrow> nat \<Rightarrow> bool" where
  "goes_left X f thr i = le_thr (at_idx (X ! i) f) thr"

definition left_idx :: "jsnum list list \<Rightarrow> nat \<Rightarrow> nat \<Rightarrow> real \<Rightarrow> nat list" where
  "left_idx X n f thr = filter (\<lambda>i. goes_left X f thr i) [0..<n]"

definition right_idx :: "jsnum list list \<Rightarrow> nat \<Rightarrow> nat \<Rightarrow> real \<Rightarrow> nat list" where
  "right_idx X n f thr = filter (\<lambda>i. \<not> goes_left X f thr i) [0..<n]"

definition pure_parts :: "jsnum list list \<Rightarrow> real list \<Rightarrow> nat \<Rightarrow> real \<Rightarrow> parts" where
  "pure_parts X y f thr =
     \<lparr>L = rows_at y (left_idx X (length y) f thr), R = rows_at y (right_idx X (length y) f thr),
      Li = left_idx X (length y) f thr, Ri = right_idx X (length y) f thr\<rparr>"

text \<open>
  The candidate thresholds of feature \<open>f\<close>, and all candidates (feature, threshold) in the
  order in which the two nested loops of \<open>buildCART\<close> visit them.
\<close>

definition cands :: "jsnum list list \<Rightarrow> nat \<Rightarrow> real list" where
  "cands X f = quantile_candidates (sort (finite_vals X f))"

definition all_cands :: "jsnum list list \<Rightarrow> (nat \<times> real) list" where
  "all_cands X = concat (map (\<lambda>f. map (Pair f) (cands X f)) [0..<nFeat_of X])"

text \<open>
  A candidate is valid when neither side has fewer than \<open>minLeaf\<close> rows; its gain is the
  number the loop body computes for it.
\<close>

definition valid_cand :: "jsnum list list \<Rightarrow> real list \<Rightarrow> nat \<Rightarrow> nat \<times> real \<Rightarrow> bool" where
  "valid_cand X y minLeaf c =
     (minLeaf \<le> length (left_idx X (length y) (fst c) (snd c)) \<and>
      minLeaf \<le> length (right_idx X (length y) (fst c) (snd c)))"

definition cand_gain :: "jsnum list list \<Rightarrow> real list \<Rightarrow> nat \<times> real \<Rightarrow> real" where
  "cand_gain X y c = gain_of (variance y) (length y) (pure_parts X y (fst c) (snd c))"

definition cand_best :: "jsnum list list \<Rightarrow> real list \<Rightarrow> nat \<times> real \<Rightarrow> best" where
  "cand_best X y c =
     \<lparr>bestGain = cand_gain X y c, bestFeat = int (fst c), bestThr = snd c,
      bestLeftIdx = left_idx X (length y) (fst c) (snd c),
      bestRightIdx = right_idx X (length y) (fst c) (snd c)\<rparr>"

definition scan_step :: "jsnum list list \<Rightarrow> real list \<Rightarrow> nat \<Rightarrow> best \<Rightarrow> nat \<times> real \<Rightarrow> best" where
  "scan_step X y minLeaf b c =
     (if valid_cand X y minLeaf c \<and> cand_gain X y c > bestGain b then cand_best X y c else b)"

definition chosen :: "jsnum list list \<Rightarrow> real list \<Rightarrow> nat \<Rightarrow> best" where
  "chosen X y minLeaf = foldl (scan_step X y minLeaf) init_best (all_cands X)"

text \<open>
  \<open>first_max cs b\<close>: \<open>b\<close> is the untouched initial record and no valid candidate of \<open>cs\<close>
  has positive gain, or \<open>b\<close> records the first valid candidate of \<open>cs\<close> whose gain is
  positive and maximal.
\<close>

definition first_max ::
  "jsnum list list \<Rightarrow> real list \<Rightarrow> nat \<Rightarrow> (nat \<times> real) list \<Rightarrow> best \<Rightarrow> bool" where
  "first_max X y minLeaf cs b =
     ((b = init_best \<and> (\<forall>c\<in>set cs. valid_cand X y minLeaf c \<longrightarrow> cand_gain X y c \<le> 0)) \<or>
      (\<exists>pre c post. cs = pre @ c # post \<and> valid_cand X y minLeaf c \<and> 0 < cand_gain X y c \<and>
          b = cand_best X y c \<and>
          (\<forall>c'\<in>set pre. valid_cand X y minLeaf c' \<longrightarrow> cand_gain X y c' < cand_gain X y c) \<and>
          (\<forall>c'\<in>set post. valid_cand X y minLeaf c' \<longrightarrow> cand_gain X y c' \<le> cand_gain X y c)))"

text \<open>The constant \<open>1e-12\<close> of the leaf test after the search.\<close>

definition eps :: real where
  "eps = 1 / 10 ^ 12"


subsection \<open>Properties of a finished tree\<close>

fun node_depth :: "CartNode \<Rightarrow> nat" where
  "node_depth (Leaf v s d) = d"
| "node_depth (Split f thr l r s d) = d"

fun node_size :: "CartNode \<Rightarrow> nat" where
  "node_size (Leaf v s d) = s"
| "node_size (Split f thr l r s d) = s"


text \<open>
  What is required of every split node that \<open>ex\<close> reaches: the children are the trees
  built from the two parts of \<open>ex\<close> one level deeper, both parts have at least \<open>minLeaf\<close>
  examples, and the size and depth fields are right.
\<close>

fun split_nodes_ok :: "(jsnum list \<times> real) list \<Rightarrow> nat \<Rightarrow> nat \<Rightarrow> CartNode \<Rightarrow> bool" where
  "split_nodes_ok ex maxDepth minLeaf (Leaf v s d) = True"
| "split_nodes_ok ex maxDepth minLeaf (Split f thr l r s d) =
     (buildCART (map fst (left_examples ex f thr)) (map snd (left_examples ex f thr))
                (d + 1) maxDepth minLeaf = Inr l \<and>
      buildCART (map fst (gt_examples ex f thr)) (map snd (gt_examples ex f thr))
                (d + 1) maxDepth minLeaf = Inr r \<and>
      minLeaf \<le> length (left_examples ex f thr) \<and>
      minLeaf \<le> length (gt_examples ex f thr) \<and>
      s = length ex \<and>
      node_depth l = d + 1 \<and> node_depth r = d + 1 \<and>
      split_nodes_ok (left_examples ex f thr) maxDepth minLeaf l \<and>
      split_nodes_ok (gt_examples ex f thr) maxDepth minLeaf r)"

subsection \<open>The rows the feature builder emits\<close>

definition emit_ok :: "DataFrame \<Rightarrow> string \<Rightarrow> int \<Rightarrow> bool" where
  "emit_ok df target t =
     (list_all isFinite (makeXAt df target t) \<and> isFinite (getNum df (t + 1) target))"

definition emitted :: "DataFrame \<Rightarrow> string \<Rightarrow> int list" where
  "emitted df target =
     filter (emit_ok df target) [maxLag_of LAGS .. int (length (rows df)) - 2]"

section \<open>The specification's wording, for comparison with the code\<close>




text \<open>
  The specification's candidate thresholds: the quantile positions taken in the
  \<^emph>\<open>distinct\<close> sorted values, equal candidates evaluated once.
\<close>

definition spec_candidates :: "real list \<Rightarrow> real list" where
  "spec_candidates vals = remdups (quantile_candidates (sort (remdups vals)))"

text \<open>
  The specification's row order: when a timestamp column exists, only the rows holding a
  valid date in it, sorted ascending by time (a stable sort, as \<open>Array.prototype.sort\<close>
  is); \<open>spec_Xy\<close> is the feature builder run on that sequence.
\<close>

definition valid_time :: "string \<Rightarrow> Row \<Rightarrow> int option" where
  "valid_time k r = (case r k of Some (CDate d) \<Rightarrow> getTime d | _ \<Rightarrow> None)"

definition time_key :: "string \<Rightarrow> Row \<Rightarrow> int" where
  "time_key k r = (case valid_time k r of Some ms \<Rightarrow> ms | None \<Rightarrow> 0)"

definition spec_sorted_rows :: "DataFrame \<Rightarrow> Row list" where
  "spec_sorted_rows df =
     (case datetimeKey df of
        None \<Rightarrow> rows df
      | Some k \<Rightarrow> sort_key (time_key k) (filter (\<lambda>r. valid_time k r \<noteq> None) (rows df)))"


section \<open>Concrete inputs\<close>

text \<open>Four examples with two identical feature columns.\<close>

definition X4 :: "jsnum list list" where
  "X4 = [[Fin 1, Fin 1], [Fin 2, Fin 2], [Fin 3, Fin 3], [Fin 4, Fin 4]]"

definition y4 :: "real list" where
  "y4 = [1, 2, 3, 4]"

text \<open>Sixteen one-column examples: eight at 0 with label 0, eight at 1 with label 10.\<close>

definition X16 :: "jsnum list list" where
  "X16 = replicate 8 [Fin 0] @ replicate 8 [Fin 1]"

definition y16 :: "real list" where
  "y16 = replicate 8 0 @ replicate 8 10"

definition m16 :: Model where
  "m16 = \<lparr>nFeatures = 1, root = Split 0 0 (Leaf 0 8 1) (Leaf 10 8 1) 16 0\<rparr>"

text \<open>One column holding the value 1 once and the value 2 nine times.\<close>

definition X10 :: "jsnum list list" where
  "X10 = [Fin 1] # replicate 9 [Fin 2]"

text \<open>A table with the single numeric column \<open>a\<close> holding 0, 1, ..., n - 1 and no timestamp column.\<close>

definition series_df :: "nat \<Rightarrow> DataFrame" where
  "series_df n =
     \<lparr>columns = [''a''], rows = map (\<lambda>i. [''a'' \<mapsto> CNum (Fin (real i))]) [0..<n],
      numericCols = [''a''], datetimeKey = None\<rparr>"

definition series_state :: "nat \<Rightarrow> Model option \<Rightarrow> app_state" where
  "series_state n mo =
     \<lparr>st_df = Some (series_df n), st_target = Some ''a'', st_model = mo,
      st_prediction = None, st_status = Status_Empty\<rparr>"



definition df_nulltime :: DataFrame where
  "df_nulltime =
     \<lparr>columns = [''datetime'', ''a''],
      rows = map (\<lambda>i. [''datetime'' \<mapsto> CNull, ''a'' \<mapsto> CNum (Fin (real i))]) [0..<5],
      numericCols = [''a''], datetimeKey = Some ''datetime''\<rparr>"

section \<open>Auxiliary lemmas\<close>








lemma split_loop_ok:
  "\<forall>i\<in>set idx. i < length X \<Longrightarrow>
   split_loop X y f thr idx p =
     Inr \<lparr>L = L p @ map (\<lambda>i. y ! i) (filter (goes_left X f thr) idx),
          R = R p @ map (\<lambda>i. y ! i) (filter (\<lambda>i. \<not> goes_left X f thr i) idx),
          Li = Li p @ filter (goes_left X f thr) idx,
          Ri = Ri p @ filter (\<lambda>i. \<not> goes_left X f thr i) idx\<rparr>"
  by (induction idx arbitrary: p) (simp_all add: goes_left_def)

lemma split_loop_err:
  "\<exists>i\<in>set idx. \<not> i < length X \<Longrightarrow> split_loop X y f thr idx p = Inl TypeError"
  by (induction idx arbitrary: p) auto

lemma split_rows_eq:
  "split_rows X y f thr =
     (if length y \<le> length X then Inr (pure_parts X y f thr) else Inl TypeError)"
proof (cases "length y \<le> length X")
  case True
  then have "\<forall>i\<in>set [0..<length y]. i < length X" by auto
  from split_loop_ok[OF this] True show ?thesis
    by (simp add: split_rows_def pure_parts_def left_idx_def right_idx_def rows_at_def)
next
  case False
  then have "\<exists>i\<in>set [0..<length y]. \<not> i < length X"
    by (auto intro!: bexI[of _ "length X"])
  from split_loop_err[OF this] False show ?thesis
    by (simp add: split_rows_def)
qed

lemma split_rows_idx_range:
  assumes "split_rows X y f thr = Inr p"
  shows "\<forall>i\<in>set (Li p @ Ri p). i < length X"
proof -
  from assms have le: "length y \<le> length X" and p: "p = pure_parts X y f thr"
    by (auto simp: split_rows_eq split: if_splits)
  show ?thesis
    using le by (auto simp: p pure_parts_def left_idx_def right_idx_def)
qed

lemma try_thresholds_scan:
  "length y \<le> length X \<Longrightarrow>
   try_thresholds X y minLeaf (variance y) f thrs b =
     Inr (foldl (scan_step X y minLeaf) b (map (Pair f) thrs))"
proof (induction thrs arbitrary: b)
  case Nil
  then show ?case by simp
next
  case (Cons thr thrs)
  show ?case
    using Cons.prems
    by (simp add: split_rows_eq Cons.IH[OF Cons.prems] scan_step_def valid_cand_def
        cand_gain_def cand_best_def pure_parts_def Let_def not_less rows_at_def)
qed


lemma quantile_candidates_Nil: "quantile_candidates [] = []"
  by (simp add: quantile_candidates_def)

lemma quantile_candidates_nonempty:
  "srt \<noteq> [] \<Longrightarrow> quantile_candidates srt = map (\<lambda>q. srt ! ((q * length srt) div 10)) [1..<10]"
proof -
  assume "srt \<noteq> []"
  then have pos: "0 < length srt" by simp
  have "\<And>q. q \<in> set [1..<10] \<Longrightarrow> (q * length srt) div 10 < length srt"
  proof -
    fix q :: nat assume "q \<in> set [1..<10]"
    then have "q < 10" by simp
    then have "q * length srt < 10 * length srt" using pos by simp
    then show "(q * length srt) div 10 < length srt"
      by (simp add: less_mult_imp_div_less mult.commute)
  qed
  then have "map (\<lambda>q. let idx = (q * length srt) div 10
                       in if idx < length srt then [srt ! idx] else []) [1..<10]
        = map (\<lambda>q. [srt ! ((q * length srt) div 10)]) [1..<10]"
    by (intro map_cong) (auto simp: Let_def)
  then show ?thesis
    unfolding quantile_candidates_def
    by (simp only: concat_map_singleton)
qed

lemma cands_empty_iff: "cands X f = [] \<longleftrightarrow> finite_vals X f = []"
proof (cases "finite_vals X f = []")
  case True then show ?thesis by (simp add: cands_def quantile_candidates_Nil)
next
  case False
  then have "sort (finite_vals X f) \<noteq> []" by (metis length_sort length_0_conv)
  from quantile_candidates_nonempty[OF this] False show ?thesis
    by (simp add: cands_def)
qed

lemma try_features_scan:
  "length y \<le> length X \<Longrightarrow>
   try_features X y minLeaf (variance y) fs b =
     Inr (foldl (scan_step X y minLeaf) b (concat (map (\<lambda>f. map (Pair f) (cands X f)) fs)))"
proof (induction fs arbitrary: b)
  case Nil
  then show ?case by simp
next
  case (Cons f fs)
  show ?case
  proof (cases "finite_vals X f = []")
    case True
    then have "cands X f = []" by (simp add: cands_empty_iff)
    with True Cons show ?thesis by simp
  next
    case False
    with Cons show ?thesis
      by (simp add: try_thresholds_scan cands_def)
  qed
qed

lemma split_search_scan:
  "length y \<le> length X \<Longrightarrow>
   split_search X y minLeaf = Inr (foldl (scan_step X y minLeaf) init_best (all_cands X))"
  by (simp add: split_search_def all_cands_def try_features_scan)

lemma bestFeat_init: "bestFeat init_best = - 1" "bestGain init_best = 0"
  by (simp_all add: init_best_def)

lemma cand_best_sel:
  "bestGain (cand_best X y c) = cand_gain X y c"
  "bestFeat (cand_best X y c) = int (fst c)"
  "bestThr (cand_best X y c) = snd c"
  "bestLeftIdx (cand_best X y c) = left_idx X (length y) (fst c) (snd c)"
  "bestRightIdx (cand_best X y c) = right_idx X (length y) (fst c) (snd c)"
  by (simp_all add: cand_best_def)

lemma scan_first_max:
  "first_max X y minLeaf cs (foldl (scan_step X y minLeaf) init_best cs)"
proof (induction cs rule: rev_induct)
  case Nil
  then show ?case by (simp add: first_max_def)
next
  case (snoc c cs)
  let ?b = "foldl (scan_step X y minLeaf) init_best cs"
  have step: "foldl (scan_step X y minLeaf) init_best (cs @ [c]) = scan_step X y minLeaf ?b c"
    by simp
  from snoc.IH consider
    (none) "?b = init_best" "\<forall>c\<in>set cs. valid_cand X y minLeaf c \<longrightarrow> cand_gain X y c \<le> 0"
  | (some) pre c0 post where "cs = pre @ c0 # post" "valid_cand X y minLeaf c0"
      "0 < cand_gain X y c0" "?b = cand_best X y c0"
      "\<forall>c'\<in>set pre. valid_cand X y minLeaf c' \<longrightarrow> cand_gain X y c' < cand_gain X y c0"
      "\<forall>c'\<in>set post. valid_cand X y minLeaf c' \<longrightarrow> cand_gain X y c' \<le> cand_gain X y c0"
    unfolding first_max_def by blast
  then show ?case
  proof cases
    case none
    show ?thesis
    proof (cases "valid_cand X y minLeaf c \<and> 0 < cand_gain X y c")
      case True
      then have "scan_step X y minLeaf ?b c = cand_best X y c"
        by (simp add: scan_step_def none(1) bestFeat_init)
      moreover have "\<forall>c'\<in>set cs. valid_cand X y minLeaf c' \<longrightarrow> cand_gain X y c' < cand_gain X y c"
        using none(2) True by fastforce
      ultimately show ?thesis
        unfolding first_max_def step using True
        by (intro disjI2 exI[of _ cs] exI[of _ c] exI[of _ "[]"]) simp
    next
      case False
      then have "scan_step X y minLeaf ?b c = init_best"
        by (auto simp: scan_step_def none(1) bestFeat_init)
      moreover have "\<forall>c'\<in>set (cs @ [c]). valid_cand X y minLeaf c' \<longrightarrow> cand_gain X y c' \<le> 0"
        using none(2) False by auto
      ultimately show ?thesis
        unfolding first_max_def step by blast
    qed
  next
    case some
    show ?thesis
    proof (cases "valid_cand X y minLeaf c \<and> cand_gain X y c0 < cand_gain X y c")
      case True
      then have "scan_step X y minLeaf ?b c = cand_best X y c"
        by (simp add: scan_step_def some(4) cand_best_sel)
      moreover have "\<forall>c'\<in>set cs. valid_cand X y minLeaf c' \<longrightarrow> cand_gain X y c' < cand_gain X y c"
        using some True by fastforce
      moreover have "0 < cand_gain X y c" using some(3) True by linarith
      ultimately show ?thesis
        unfolding first_max_def step using True
        by (intro disjI2 exI[of _ cs] exI[of _ c] exI[of _ "[]"]) simp
    next
      case False
      then have "scan_step X y minLeaf ?b c = cand_best X y c0"
        by (auto simp: scan_step_def some(4) cand_best_sel)
      moreover have "\<forall>c'\<in>set (post @ [c]). valid_cand X y minLeaf c' \<longrightarrow> cand_gain X y c' \<le> cand_gain X y c0"
        using some(6) False by auto
      moreover have "cs @ [c] = pre @ c0 # (post @ [c])" using some(1) by simp
      ultimately show ?thesis
        unfolding first_max_def step using some(2,3,5)
        by (intro disjI2 exI[of _ pre] exI[of _ c0] exI[of _ "post @ [c]"]) simp
    qed
  qed
qed



lemma first_max_split:
  assumes "first_max X y minLeaf cs b" "\<not> (bestGain b \<le> eps \<or> bestFeat b < 0)"
  shows "\<exists>pre c post. cs = pre @ c # post \<and> valid_cand X y minLeaf c \<and> eps < cand_gain X y c \<and>
          b = cand_best X y c \<and>
          (\<forall>c'\<in>set pre. valid_cand X y minLeaf c' \<longrightarrow> cand_gain X y c' < cand_gain X y c) \<and>
          (\<forall>c'\<in>set post. valid_cand X y minLeaf c' \<longrightarrow> cand_gain X y c' \<le> cand_gain X y c)"
proof -
  from assms(2) have "b \<noteq> init_best" by (auto simp: bestFeat_init)
  with assms(1) obtain pre c post where h: "cs = pre @ c # post" "valid_cand X y minLeaf c"
      "b = cand_best X y c"
      "\<forall>c'\<in>set pre. valid_cand X y minLeaf c' \<longrightarrow> cand_gain X y c' < cand_gain X y c"
      "\<forall>c'\<in>set post. valid_cand X y minLeaf c' \<longrightarrow> cand_gain X y c' \<le> cand_gain X y c"
    unfolding first_max_def by blast
  from assms(2) h(3) have "eps < cand_gain X y c" by (simp add: cand_best_sel)
  with h show ?thesis by blast
qed

lemma buildCART_unfold:
  assumes "length y \<le> length X"
  shows "buildCART X y depth maxDepth minLeaf =
     (if length y \<le> minLeaf \<or> depth \<ge> maxDepth
      then Inr (Leaf (leaf_mean y) (length y) depth)
      else let b = chosen X y minLeaf in
           if bestGain b \<le> eps \<or> bestFeat b < 0
           then Inr (Leaf (leaf_mean y) (length y) depth)
           else case buildCART (rows_at X (bestLeftIdx b)) (rows_at y (bestLeftIdx b))
                               (depth + 1) maxDepth minLeaf of
                  Inl e \<Rightarrow> Inl e
                | Inr l \<Rightarrow>
                    (case buildCART (rows_at X (bestRightIdx b)) (rows_at y (bestRightIdx b))
                                    (depth + 1) maxDepth minLeaf of
                       Inl e \<Rightarrow> Inl e
                     | Inr r \<Rightarrow>
                         Inr (Split (nat (bestFeat b)) (bestThr b) l r (length y) depth)))"
  by (subst buildCART.simps) (simp add: split_search_scan[OF assms] chosen_def eps_def Let_def)

lemma length_rows_at: "length (rows_at xs idx) = length idx"
  by (simp add: rows_at_def)

lemma buildCART_total:
  "length y \<le> length X \<Longrightarrow> \<exists>t. buildCART X y depth maxDepth minLeaf = Inr t"
proof (induction "maxDepth - depth" arbitrary: X y depth)
  case 0
  then show ?case by (simp add: buildCART_unfold)
next
  case (Suc k)
  have k: "k = maxDepth - (depth + 1)" using Suc.hyps(2) by simp
  have l: "\<exists>t. buildCART (rows_at X idx) (rows_at y idx) (depth + 1) maxDepth minLeaf = Inr t" for idx
    by (rule Suc.hyps(1)[OF k]) (simp add: length_rows_at)
  show ?case
    using l[of "bestLeftIdx (chosen X y minLeaf)"] l[of "bestRightIdx (chosen X y minLeaf)"]
    by (auto simp: buildCART_unfold[OF Suc.prems] Let_def)
qed






lemma all_cands_feat: "c \<in> set (all_cands X) \<Longrightarrow> fst c < nFeat_of X"
  by (auto simp: all_cands_def)

text \<open>The search on a well-formed training set records the first candidate of maximal gain.\<close>

lemma chosen_first_max: "first_max X y minLeaf (all_cands X) (chosen X y minLeaf)"
  unfolding chosen_def by (rule scan_first_max)


lemma zip_as_map_nth:
  "length X = length y \<Longrightarrow> zip X y = map (\<lambda>i. (X ! i, y ! i)) [0..<length y]"
  by (rule nth_equalityI) simp_all

lemma idx_filter_zip:
  assumes "length X = length y"
  shows "map (\<lambda>i. (X ! i, y ! i)) (filter (\<lambda>i. P (X ! i)) [0..<length y])
         = filter (\<lambda>e. P (fst e)) (zip X y)"
proof -
  have "filter (\<lambda>e. P (fst e)) (map (\<lambda>i. (X ! i, y ! i)) [0..<length y])
        = map (\<lambda>i. (X ! i, y ! i)) (filter (\<lambda>i. P (X ! i)) [0..<length y])"
    by (simp add: filter_map comp_def)
  then show ?thesis by (simp add: zip_as_map_nth[OF assms])
qed

lemma left_idx_examples:
  assumes "length X = length y"
  shows "rows_at X (left_idx X (length y) f thr) = map fst (left_examples (zip X y) f thr)"
    and "rows_at y (left_idx X (length y) f thr) = map snd (left_examples (zip X y) f thr)"
    and "length (left_idx X (length y) f thr) = length (left_examples (zip X y) f thr)"
proof -
  have e: "left_examples (zip X y) f thr
           = map (\<lambda>i. (X ! i, y ! i)) (left_idx X (length y) f thr)"
    unfolding left_examples_def left_idx_def goes_left_def row_le_def
    using idx_filter_zip[OF assms, of "\<lambda>x. le_thr (at_idx x f) thr"] by simp
  show "rows_at X (left_idx X (length y) f thr) = map fst (left_examples (zip X y) f thr)"
    by (simp add: e rows_at_def comp_def)
  show "rows_at y (left_idx X (length y) f thr) = map snd (left_examples (zip X y) f thr)"
    by (simp add: e rows_at_def comp_def)
  show "length (left_idx X (length y) f thr) = length (left_examples (zip X y) f thr)"
    by (simp add: e)
qed

lemma right_idx_examples:
  assumes "length X = length y"
  shows "rows_at X (right_idx X (length y) f thr) = map fst (right_examples (zip X y) f thr)"
    and "rows_at y (right_idx X (length y) f thr) = map snd (right_examples (zip X y) f thr)"
    and "length (right_idx X (length y) f thr) = length (right_examples (zip X y) f thr)"
proof -
  have e: "right_examples (zip X y) f thr
           = map (\<lambda>i. (X ! i, y ! i)) (right_idx X (length y) f thr)"
    unfolding right_examples_def right_idx_def goes_left_def row_le_def
    using idx_filter_zip[OF assms, of "\<lambda>x. \<not> le_thr (at_idx x f) thr"] by simp
  show "rows_at X (right_idx X (length y) f thr) = map fst (right_examples (zip X y) f thr)"
    by (simp add: e rows_at_def comp_def)
  show "rows_at y (right_idx X (length y) f thr) = map snd (right_examples (zip X y) f thr)"
    by (simp add: e rows_at_def comp_def)
  show "length (right_idx X (length y) f thr) = length (right_examples (zip X y) f thr)"
    by (simp add: e)
qed

lemma buildCART_leaf_case:
  assumes "length X = length y" "buildCART X y depth maxDepth minLeaf = Inr (Leaf v s d)"
  shows "v = leaf_mean y" "s = length y" "d = depth"
  using assms(2) buildCART_unfold[of y X depth maxDepth minLeaf] assms(1)
  by (auto simp: Let_def split: if_splits sum.splits)


lemma buildCART_split_case:
  assumes len: "length X = length y"
    and sp: "buildCART X y depth maxDepth minLeaf = Inr (Split f thr l r s d)"
  shows "\<not> length y \<le> minLeaf" "depth < maxDepth"
    "(f, thr) \<in> set (all_cands X)" "valid_cand X y minLeaf (f, thr)"
    "eps < cand_gain X y (f, thr)" "s = length y" "d = depth"
    "chosen X y minLeaf = cand_best X y (f, thr)"
    "buildCART (rows_at X (left_idx X (length y) f thr)) (rows_at y (left_idx X (length y) f thr))
        (depth + 1) maxDepth minLeaf = Inr l"
    "buildCART (rows_at X (right_idx X (length y) f thr)) (rows_at y (right_idx X (length y) f thr))
        (depth + 1) maxDepth minLeaf = Inr r"
proof -
  have u: "length y \<le> length X" using len by simp
  let ?b = "chosen X y minLeaf"
  from sp show a: "\<not> length y \<le> minLeaf" "depth < maxDepth"
    by (auto simp: buildCART_unfold[OF u] split: if_splits)
  from sp a have nb: "\<not> (bestGain ?b \<le> eps \<or> bestFeat ?b < 0)"
    by (auto simp: buildCART_unfold[OF u] Let_def split: if_splits)
  from sp a nb have rec:
    "(case buildCART (rows_at X (bestLeftIdx ?b)) (rows_at y (bestLeftIdx ?b))
                               (depth + 1) maxDepth minLeaf of
                  Inl e \<Rightarrow> Inl e
                | Inr l \<Rightarrow>
                    (case buildCART (rows_at X (bestRightIdx ?b)) (rows_at y (bestRightIdx ?b))
                                    (depth + 1) maxDepth minLeaf of
                       Inl e \<Rightarrow> Inl e
                     | Inr r \<Rightarrow>
                         Inr (Split (nat (bestFeat ?b)) (bestThr ?b) l r (length y) depth)))
      = Inr (Split f thr l r s d)"
    by (simp add: buildCART_unfold[OF u] Let_def)
  then have parts: "f = nat (bestFeat ?b)" "thr = bestThr ?b" "s = length y" "d = depth"
    "buildCART (rows_at X (bestLeftIdx ?b)) (rows_at y (bestLeftIdx ?b))
        (depth + 1) maxDepth minLeaf = Inr l"
    "buildCART (rows_at X (bestRightIdx ?b)) (rows_at y (bestRightIdx ?b))
        (depth + 1) maxDepth minLeaf = Inr r"
    by (auto split: sum.splits)
  from first_max_split[OF chosen_first_max nb]
  obtain pre c post where h: "all_cands X = pre @ c # post" "valid_cand X y minLeaf c"
    "eps < cand_gain X y c" "?b = cand_best X y c"
    by blast
  have c: "c = (f, thr)" using parts(1,2) by (simp add: h(4) cand_best_sel)
  show "(f, thr) \<in> set (all_cands X)" using h(1) c by simp
  show "valid_cand X y minLeaf (f, thr)" using h(2) c by simp
  show "eps < cand_gain X y (f, thr)" using h(3) c by simp
  show "s = length y" "d = depth" by (rule parts)+
  show ch: "?b = cand_best X y (f, thr)" using h(4) c by simp
  show "buildCART (rows_at X (left_idx X (length y) f thr)) (rows_at y (left_idx X (length y) f thr))
        (depth + 1) maxDepth minLeaf = Inr l"
    using parts(5) by (simp add: ch cand_best_sel)
  show "buildCART (rows_at X (right_idx X (length y) f thr)) (rows_at y (right_idx X (length y) f thr))
        (depth + 1) maxDepth minLeaf = Inr r"
    using parts(6) by (simp add: ch cand_best_sel)
qed



lemma buildCART_node_depth:
  assumes "length X = length y" "buildCART X y depth maxDepth minLeaf = Inr t"
  shows "node_depth t = depth"
proof (cases t)
  case (Leaf v s d)
  with buildCART_leaf_case(3)[OF assms(1)] assms(2) show ?thesis by simp
next
  case (Split f thr l r s d)
  with buildCART_split_case(7)[OF assms(1)] assms(2) show ?thesis by simp
qed


lemma finite_matrix_row:
  "finite_matrix w X \<Longrightarrow> x \<in> set X \<Longrightarrow> f < w \<Longrightarrow> \<exists>a. at_idx x f = Some (Fin a)"
  unfolding finite_matrix_def list_all_iff at_idx_def
  by (metis isFinite.elims(2) nth_mem)

lemma finite_row_gt: "at_idx x f = Some (Fin a) \<Longrightarrow> row_gt x f thr \<longleftrightarrow> \<not> row_le x f thr"
  by (auto simp: row_gt_def row_le_def)

lemma finite_right_examples:
  assumes "finite_matrix w (map fst ex)" "f < w"
  shows "right_examples ex f thr = gt_examples ex f thr"
  unfolding right_examples_def gt_examples_def
proof (rule filter_cong[OF refl])
  fix e assume "e \<in> set ex"
  then have "fst e \<in> set (map fst ex)" by simp
  from finite_matrix_row[OF assms(1) this assms(2)] obtain a where "at_idx (fst e) f = Some (Fin a)" ..
  then show "(\<not> row_le (fst e) f thr) = row_gt (fst e) f thr" by (simp add: finite_row_gt)
qed

lemma finite_matrix_filter:
  "finite_matrix w (map fst ex) \<Longrightarrow> finite_matrix w (map fst (filter P ex))"
  by (auto simp: finite_matrix_def list_all_iff)

lemma nFeat_of_finite: "finite_matrix w X \<Longrightarrow> X \<noteq> [] \<Longrightarrow> nFeat_of X = w"
  by (cases X) (simp_all add: nFeat_of_def finite_matrix_def)

lemma all_cands_feat_width:
  assumes "finite_matrix w X" "c \<in> set (all_cands X)"
  shows "fst c < w"
proof -
  from all_cands_feat[OF assms(2)] have lt: "fst c < nFeat_of X" .
  then have "X \<noteq> []" by (auto simp: nFeat_of_def)
  with assms(1) lt show ?thesis by (simp add: nFeat_of_finite)
qed

lemma buildCART_split_nodes_ok:
  "length X = length y \<Longrightarrow> finite_matrix w X \<Longrightarrow>
   buildCART X y depth maxDepth minLeaf = Inr t \<Longrightarrow>
   split_nodes_ok (zip X y) maxDepth minLeaf t"
proof (induction t arbitrary: X y depth)
  case (Leaf v s d)
  then show ?case by simp
next
  case (Split f thr l r s d)
  note sc = buildCART_split_case[OF Split(3,5)]
  note le = left_idx_examples[OF Split(3), of f thr]
  note re = right_idx_examples[OF Split(3), of f thr]
  let ?ex = "zip X y"
  have fm: "finite_matrix w (map fst ?ex)" using Split(3,4) by simp
  have fw: "f < w" using all_cands_feat_width[OF Split(4) sc(3)] by simp
  have gt: "right_examples ?ex f thr = gt_examples ?ex f thr"
    by (rule finite_right_examples[OF fm fw])
  have bl: "buildCART (map fst (left_examples ?ex f thr)) (map snd (left_examples ?ex f thr))
                (depth + 1) maxDepth minLeaf = Inr l"
    using sc(9) le by simp
  have br: "buildCART (map fst (gt_examples ?ex f thr)) (map snd (gt_examples ?ex f thr))
                (depth + 1) maxDepth minLeaf = Inr r"
    using sc(10) re gt by simp
  have sz: "minLeaf \<le> length (left_examples ?ex f thr)" "minLeaf \<le> length (gt_examples ?ex f thr)"
    using sc(4) le(3) re(3) gt by (simp_all add: valid_cand_def)
  have dl: "node_depth l = depth + 1" by (rule buildCART_node_depth[OF _ bl]) simp
  have dr: "node_depth r = depth + 1" by (rule buildCART_node_depth[OF _ br]) simp
  have okl: "split_nodes_ok (zip (map fst (left_examples ?ex f thr))
                 (map snd (left_examples ?ex f thr))) maxDepth minLeaf l"
    by (rule Split.IH(1)[OF _ _ bl]) (simp_all add: left_examples_def finite_matrix_filter[OF fm])
  have okr: "split_nodes_ok (zip (map fst (gt_examples ?ex f thr))
                 (map snd (gt_examples ?ex f thr))) maxDepth minLeaf r"
    by (rule Split.IH(2)[OF _ _ br]) (simp_all add: gt_examples_def finite_matrix_filter[OF fm])
  show ?case
    using bl br sz dl dr okl okr sc(6,7) Split(3)
    by (simp add: zip_map_fst_snd)
qed

lemma maxLag_LAGS: "maxLag_of LAGS = 3"
  by (simp add: maxLag_of_def LAGS_def)

lemma list_ex_not_all: "list_ex (\<lambda>v. \<not> P v) xs \<longleftrightarrow> \<not> list_all P xs"
  by (simp add: list_ex_iff list_all_iff)

lemma Xy_step_cases:
  "Xy_step df target acc t =
     (if emit_ok df target t
      then acc\<lparr>Xy_X := Xy_X acc @ [makeXAt df target t],
               Xy_y := Xy_y acc @ [case getNum df (t + 1) target of Fin r \<Rightarrow> r | _ \<Rightarrow> 0]\<rparr>
      else acc)"
  by (cases "getNum df (t + 1) target")
     (simp_all add: Xy_step_def emit_ok_def Let_def list_ex_not_all)

lemma Xy_fold:
  "Xy_X (foldl (Xy_step df target) acc ts)
     = Xy_X acc @ map (makeXAt df target) (filter (emit_ok df target) ts) \<and>
   map Fin (Xy_y (foldl (Xy_step df target) acc ts))
     = map Fin (Xy_y acc) @ map (\<lambda>t. getNum df (t + 1) target) (filter (emit_ok df target) ts) \<and>
   Xy_maxLag (foldl (Xy_step df target) acc ts) = Xy_maxLag acc"
proof (induction ts arbitrary: acc)
  case Nil
  then show ?case by simp
next
  case (Cons t ts)
  show ?case
  proof (cases "emit_ok df target t")
    case True
    then obtain r where r: "getNum df (t + 1) target = Fin r"
      by (cases "getNum df (t + 1) target") (simp_all add: emit_ok_def)
    have s: "Xy_step df target acc t
             = acc\<lparr>Xy_X := Xy_X acc @ [makeXAt df target t], Xy_y := Xy_y acc @ [r]\<rparr>"
      using True r by (simp add: Xy_step_cases)
    show ?thesis
      using True r by (simp add: Cons.IH s)
  next
    case False
    then have s: "Xy_step df target acc t = acc" by (simp add: Xy_step_cases)
    show ?thesis using False by (simp add: Cons.IH s)
  qed
qed

lemma Xy_Some:
  "target \<noteq> [] \<Longrightarrow>
   Xy (Some df) (Some target) =
     foldl (Xy_step df target) \<lparr>Xy_X = [], Xy_y = [], Xy_maxLag = maxLag_of LAGS\<rparr>
           [maxLag_of LAGS .. int (length (rows df)) - 2]"
  by (simp add: Xy_def)

lemma Xy_emitted:
  assumes "target \<noteq> []"
  shows "Xy_X (Xy (Some df) (Some target)) = map (makeXAt df target) (emitted df target)"
    and "map Fin (Xy_y (Xy (Some df) (Some target)))
           = map (\<lambda>t. getNum df (t + 1) target) (emitted df target)"
    and "Xy_maxLag (Xy (Some df) (Some target)) = 3"
  using Xy_fold[of df target "\<lparr>Xy_X = [], Xy_y = [], Xy_maxLag = maxLag_of LAGS\<rparr>"
      "[maxLag_of LAGS .. int (length (rows df)) - 2]"]
  by (simp_all add: Xy_Some[OF assms] emitted_def maxLag_LAGS)

lemma Xy_lengths: "length (Xy_X (Xy dfo targeto)) = length (Xy_y (Xy dfo targeto))"
proof (cases "\<exists>df target. dfo = Some df \<and> targeto = Some target \<and> target \<noteq> []")
  case True
  then obtain df target where h: "dfo = Some df" "targeto = Some target" "target \<noteq> []" by blast
  have "length (map Fin (Xy_y (Xy (Some df) (Some target)))) = length (emitted df target)"
    by (simp only: Xy_emitted(2)[OF h(3)] length_map)
  then show ?thesis by (simp add: h(1,2) Xy_emitted(1)[OF h(3)])
next
  case False
  then show ?thesis by (auto simp: Xy_def split: option.splits)
qed


lemma emitted_increasing: "sorted_wrt (<) (emitted df target)"
  unfolding emitted_def by (rule sorted_wrt_filter) simp







lemma Xy_empty_unless:
  "\<not> (\<exists>df target. dfo = Some df \<and> targeto = Some target \<and> target \<noteq> []) \<Longrightarrow> Xy_X (Xy dfo targeto) = []"
  by (auto simp: Xy_def split: option.splits)

lemma fitCART_total:
  "length y \<le> length X \<Longrightarrow> \<exists>m. fitCART X y = Inr m"
  using buildCART_total[of y X 0 4 8] by (auto simp: fitCART_def)

section \<open>The claims\<close>




text \<open>
  Claim C2, as stated, fails. For a column holding 1 once and 2 nine times the code
  evaluates the threshold 2 nine times and never the threshold 1, whereas the quantile
  positions of the distinct sorted values give 1 and 2, each once.
\<close>

theorem candidates_counterexample:
  "cands X10 0 = [2, 2, 2, 2, 2, 2, 2, 2, 2] \<and>
   spec_candidates (finite_vals X10 0) = [1, 2] \<and>
   quantile_candidates (sort (remdups (finite_vals X10 0))) = [1, 1, 1, 1, 2, 2, 2, 2, 2] \<and>
   \<not> distinct (cands X10 0)"
  by code_simp

text \<open>
  Claim C2, amended. For every node and feature \<open>f\<close> the candidate thresholds are the
  values at the positions \<open>\<lfloor>q m / 10\<rfloor>\<close>, \<open>q = 1, ..., 9\<close>, of the node's finite values
  of that feature sorted ascending with repeated values kept (\<open>m\<close> their number): nine
  candidates when there is a finite value and none otherwise, so at most nine; equal
  candidates are not collapsed, the whole list is handed to the threshold loop.
\<close>

theorem candidates_are_quantiles_with_repeats:
  "cands X f =
     (if finite_vals X f = [] then []
      else map (\<lambda>q. sort (finite_vals X f) ! ((q * length (finite_vals X f)) div 10)) [1..<10]) \<and>
   length (cands X f) \<le> 9 \<and>
   try_features X y minLeaf pv (f # fs) b =
     (case try_thresholds X y minLeaf pv f (cands X f) b of
        Inl e \<Rightarrow> Inl e
      | Inr b' \<Rightarrow> try_features X y minLeaf pv fs b')"
proof (cases "finite_vals X f = []")
  case True
  then show ?thesis by (simp add: cands_def quantile_candidates_Nil)
next
  case False
  then have ne: "sort (finite_vals X f) \<noteq> []" by (metis length_sort length_0_conv)
  show ?thesis
    using False by (simp add: cands_def quantile_candidates_nonempty[OF ne] Let_def)
qed

theorem candidates_are_quantiles_with_repeats_witness:
  "cands X4 1 = [1, 1, 2, 2, 3, 3, 3, 4, 4] \<and> length (cands X4 1) = 9 \<and>
   cands X4 1 = map (\<lambda>q. sort (finite_vals X4 1) ! ((q * length (finite_vals X4 1)) div 10)) [1..<10]"
proof -
  have a: "cands X4 1 = [1, 1, 2, 2, 3, 3, 3, 4, 4]" by code_simp
  have b: "finite_vals X4 1 \<noteq> []" by code_simp
  from candidates_are_quantiles_with_repeats[of X4 1] a b show ?thesis by simp
qed

text \<open>
  Claim C3, as stated, fails. The model trained on sixteen one-column examples has width 1;
  \<open>predictBatch\<close> on the empty vector returns 10 and on a vector of width 2 returns 0.
\<close>

theorem predict_wrong_width_counterexample:
  "fitCART X16 y16 = Inr m16 \<and> nFeatures m16 = 1 \<and>
   length ([] :: jsnum list) \<noteq> nFeatures m16 \<and> predictBatch m16 [[]] = [10] \<and>
   length [Fin 0, Fin 7] \<noteq> nFeatures m16 \<and> predictBatch m16 [[Fin 0, Fin 7]] = [0]"
  by code_simp

text \<open>
  Claim C3, amended. \<open>predictTree\<close> and \<open>predictBatch\<close> perform no width check: for a
  model and vectors of any width they return one number per vector; at a split whose
  feature index lies beyond the end of the vector the comparison is false and the
  traversal continues in the right child.
\<close>

theorem predict_has_no_width_check:
  "length (predictBatch m XX) = length XX \<and>
   predictBatch m [x] = [predictTree (root m) x] \<and>
   (length x \<le> f \<longrightarrow> predictTree (Split f thr l r s d) x = predictTree r x)"
  by (simp add: predictBatch_def at_idx_def)

theorem predict_has_no_width_check_witness:
  "length ([] :: jsnum list) \<le> 0 \<and>
   predictTree (Split 0 0 (Leaf 0 8 1) (Leaf 10 8 1) 16 0) [] = 10 \<and>
   length (predictBatch m16 [[], [Fin 0, Fin 7]]) = 2"
proof -
  have a: "length ([] :: jsnum list) \<le> 0" by simp
  from predict_has_no_width_check[of m16 "[[], [Fin 0, Fin 7]]" "[]" 0 0 "Leaf 0 8 1" "Leaf 10 8 1" 16 0] a
  show ?thesis by simp
qed





text \<open>
  Claim C6, as stated, fails in its range: \<open>N\<close> is the stored row count, not a
  filtered one. For five rows with an empty timestamp cell the filtered count is 0 and the
  range \<open>[maxLag, N - 2]\<close> of the claim is empty, yet position 3 is emitted.
\<close>

theorem emission_range_counterexample:
  "spec_sorted_rows df_nulltime = [] \<and>
   [maxLag_of LAGS .. int (length (spec_sorted_rows df_nulltime)) - 2] = [] \<and>
   length (rows df_nulltime) = 5 \<and>
   Xy_X (Xy (Some df_nulltime) (Some ''a''))
     = [[Fin 2, Fin 1, Fin 0, Fin 0, Fin 0, Fin 0, Fin 0]] \<and>
   Xy_y (Xy (Some df_nulltime) (Some ''a'')) = [4]"
  by code_simp

text \<open>
  Claim C6, amended. The training examples are exactly the positions \<open>t\<close> of
  \<open>[maxLag, N - 2]\<close>, in ascending order, at which every slot of the feature vector is a
  finite number and the target's value at \<open>t + 1\<close> is a finite number, where \<open>N\<close> is the
  number of stored rows and \<open>maxLag\<close> the maximum of the lag set; every emitted vector has
  finite slots only.
\<close>

theorem emission_exactly_finite_rows_in_range:
  assumes "target \<noteq> []"
  shows "Xy_X (Xy (Some df) (Some target)) = map (makeXAt df target) (emitted df target) \<and>
         map Fin (Xy_y (Xy (Some df) (Some target)))
           = map (\<lambda>t. getNum df (t + 1) target) (emitted df target) \<and>
         set (emitted df target)
           = {t. maxLag_of LAGS \<le> t \<and> t \<le> int (length (rows df)) - 2 \<and>
                 list_all isFinite (makeXAt df target t) \<and>
                 isFinite (getNum df (t + 1) target)} \<and>
         sorted_wrt (<) (emitted df target) \<and>
         maxLag_of LAGS = Max (set LAGS) \<and>
         list_all (list_all isFinite) (Xy_X (Xy (Some df) (Some target)))"
proof -
  have s: "set (emitted df target)
           = {t. maxLag_of LAGS \<le> t \<and> t \<le> int (length (rows df)) - 2 \<and>
                 list_all isFinite (makeXAt df target t) \<and>
                 isFinite (getNum df (t + 1) target)}"
    by (auto simp: emitted_def emit_ok_def)
  have m: "maxLag_of LAGS = Max (set LAGS)"
    by (simp add: maxLag_of_def LAGS_def)
  have f: "list_all (list_all isFinite) (map (makeXAt df target) (emitted df target))"
    by (auto simp: list_all_iff emitted_def emit_ok_def)
  show ?thesis
    using Xy_emitted(1,2)[OF assms, of df] s m f emitted_increasing[of df target]
    by simp
qed

theorem emission_exactly_finite_rows_in_range_witness:
  "''a'' \<noteq> [] \<and> emitted (series_df 6) ''a'' = [3, 4] \<and>
   Xy_X (Xy (Some (series_df 6)) (Some ''a'')) = map (makeXAt (series_df 6) ''a'') [3, 4] \<and>
   map Fin (Xy_y (Xy (Some (series_df 6)) (Some ''a''))) = [Fin 4, Fin 5]"
proof -
  have a: "''a'' \<noteq> []" by simp
  have e: "emitted (series_df 6) ''a'' = [3, 4]" by code_simp
  have g: "map (\<lambda>t. getNum (series_df 6) (t + 1) ''a'') [3, 4] = [Fin 4, Fin 5]" by code_simp
  from emission_exactly_finite_rows_in_range[OF a, of "series_df 6"] a e g
  show ?thesis by simp
qed

text \<open>
  Claim C7. With fewer than 20 assembled training examples \<open>train\<close> changes nothing but
  the status line, so no model is produced and a model held before stays; with 20 or more
  it stores the model \<open>fitCART\<close> returns, which never fails on assembled examples.
\<close>

theorem train_floor_of_twenty:
  "(length (Xy_X (Xy (st_df s) (st_target s))) < 20 \<longrightarrow>
      (\<exists>msg. train s = Inr (s\<lparr>st_status := msg\<rparr>))) \<and>
   (20 \<le> length (Xy_X (Xy (st_df s) (st_target s))) \<longrightarrow>
      (\<exists>m. fitCART (Xy_X (Xy (st_df s) (st_target s))) (Xy_y (Xy (st_df s) (st_target s))) = Inr m \<and>
           train s = Inr (s\<lparr>st_model := Some m, st_prediction := None,
                            st_status := Status_Trained (nFeatures m)
                                           (length (Xy_X (Xy (st_df s) (st_target s))))\<rparr>)))"
proof (intro conjI impI)
  assume "length (Xy_X (Xy (st_df s) (st_target s))) < 20"
  then show "\<exists>msg. train s = Inr (s\<lparr>st_status := msg\<rparr>)"
    by (auto simp: train_def Let_def)
next
  let ?r = "Xy (st_df s) (st_target s)"
  assume ge: "20 \<le> length (Xy_X ?r)"
  then have "Xy_X ?r \<noteq> []" by auto
  with Xy_empty_unless[of "st_df s" "st_target s"]
  obtain df target where h: "st_df s = Some df" "st_target s = Some target" "target \<noteq> []"
    by blast
  have "length (Xy_y ?r) \<le> length (Xy_X ?r)" by (simp add: Xy_lengths)
  from fitCART_total[OF this] obtain m where m: "fitCART (Xy_X ?r) (Xy_y ?r) = Inr m" ..
  have "train s = Inr (s\<lparr>st_model := Some m, st_prediction := None,
                            st_status := Status_Trained (nFeatures m) (length (Xy_X ?r))\<rparr>)"
    using ge h m by (simp add: train_def Let_def)
  with m show "\<exists>m. fitCART (Xy_X ?r) (Xy_y ?r) = Inr m \<and>
           train s = Inr (s\<lparr>st_model := Some m, st_prediction := None,
                            st_status := Status_Trained (nFeatures m) (length (Xy_X ?r))\<rparr>)"
    by blast
qed

theorem train_floor_of_twenty_witness:
  "length (Xy_X (Xy (Some (series_df 23)) (Some ''a''))) = 19 \<and>
   (\<exists>s'. train (series_state 23 (Some m16)) = Inr s' \<and> st_model s' = Some m16) \<and>
   length (Xy_X (Xy (Some (series_df 24)) (Some ''a''))) = 20 \<and>
   (\<exists>s' m. train (series_state 24 None) = Inr s' \<and> st_model s' = Some m \<and>
         fitCART (Xy_X (Xy (Some (series_df 24)) (Some ''a'')))
                 (Xy_y (Xy (Some (series_df 24)) (Some ''a''))) = Inr m)"
proof -
  have l23: "length (Xy_X (Xy (Some (series_df 23)) (Some ''a''))) = 19" by code_simp
  have l24: "length (Xy_X (Xy (Some (series_df 24)) (Some ''a''))) = 20" by code_simp
  have a: "\<exists>s'. train (series_state 23 (Some m16)) = Inr s' \<and> st_model s' = Some m16"
    using train_floor_of_twenty[of "series_state 23 (Some m16)"] l23
    by (auto simp: series_state_def)
  have b: "\<exists>s' m. train (series_state 24 None) = Inr s' \<and> st_model s' = Some m \<and>
         fitCART (Xy_X (Xy (Some (series_df 24)) (Some ''a'')))
                 (Xy_y (Xy (Some (series_df 24)) (Some ''a''))) = Inr m"
    using train_floor_of_twenty[of "series_state 24 None"] l24
    by (auto simp: series_state_def)
  show ?thesis using l23 l24 a b by blast
qed





text \<open>
  Claim C10. In the tree built from a training set with one finite feature vector per
  label, at every split node: the left child is the tree built, one level deeper, from the
  node's examples whose value at the split feature is \<open>\<le>\<close> the threshold and the right
  child the tree built from those whose value is \<open>>\<close> the threshold; both parts have at
  least \<open>minLeaf\<close> examples; the size field is the number of examples at the node; and
  each child's depth field is the node's depth plus one.
\<close>

theorem split_node_invariants:
  assumes len: "length X = length y" and fin: "finite_matrix w X"
  shows "\<exists>t. buildCART X y depth maxDepth minLeaf = Inr t \<and> node_depth t = depth \<and>
             node_size t = length y \<and> split_nodes_ok (zip X y) maxDepth minLeaf t"
proof -
  from buildCART_total[of y X depth maxDepth minLeaf] len
  obtain t where t: "buildCART X y depth maxDepth minLeaf = Inr t" by auto
  have sz: "node_size t = length y"
  proof (cases t)
    case (Leaf v s d)
    with buildCART_leaf_case(2)[OF len] t show ?thesis by simp
  next
    case (Split f thr l r s d)
    with buildCART_split_case(6)[OF len] t show ?thesis by simp
  qed
  from t buildCART_node_depth[OF len t] sz buildCART_split_nodes_ok[OF len fin t]
  show ?thesis by blast
qed

theorem split_node_invariants_witness:
  "length X4 = length y4 \<and> finite_matrix 2 X4 \<and>
   buildCART X4 y4 0 4 1 =
     Inr (Split 0 2 (Split 0 1 (Leaf 1 1 2) (Leaf 2 1 2) 2 1)
                    (Split 0 3 (Leaf 3 1 2) (Leaf 4 1 2) 2 1) 4 0) \<and>
   split_nodes_ok (zip X4 y4) 4 1
     (Split 0 2 (Split 0 1 (Leaf 1 1 2) (Leaf 2 1 2) 2 1)
                (Split 0 3 (Leaf 3 1 2) (Leaf 4 1 2) 2 1) 4 0) \<and>
   left_examples (zip X4 y4) 0 2 = [([Fin 1, Fin 1], 1), ([Fin 2, Fin 2], 2)] \<and>
   gt_examples (zip X4 y4) 0 2 = [([Fin 3, Fin 3], 3), ([Fin 4, Fin 4], 4)]"
proof -
  have a: "length X4 = length y4" by (simp add: X4_def y4_def)
  have b: "finite_matrix 2 X4" by (simp add: X4_def finite_matrix_def)
  have t: "buildCART X4 y4 0 4 1 =
     Inr (Split 0 2 (Split 0 1 (Leaf 1 1 2) (Leaf 2 1 2) 2 1)
                    (Split 0 3 (Leaf 3 1 2) (Leaf 4 1 2) 2 1) 4 0)"
    by code_simp
  have l: "left_examples (zip X4 y4) 0 2 = [([Fin 1, Fin 1], 1), ([Fin 2, Fin 2], 2)]"
    by code_simp
  have r: "gt_examples (zip X4 y4) 0 2 = [([Fin 3, Fin 3], 3), ([Fin 4, Fin 4], 4)]"
    by code_simp
  from split_node_invariants[OF a b, of 0 4 1] t
  have "split_nodes_ok (zip X4 y4) 4 1
     (Split 0 2 (Split 0 1 (Leaf 1 1 2) (Leaf 2 1 2) 2 1)
                (Split 0 3 (Leaf 3 1 2) (Leaf 4 1 2) 2 1) 4 0)"
    by auto
  with a b t l r show ?thesis by blast
qed

end
